theory Spec2Isabelle
  imports Main
begin

section \<open>Values shared by the API server and the worker\<close>

subsection \<open>Exceptions\<close>

text \<open>
  Every \<open>raise\<close> of the source is a value: a function that can raise returns
  \<open>exn + 'a\<close>, with \<open>Inl\<close> the exception. The string is the exception's message;
  \<open>HTTPException\<close> carries FastAPI's status code and detail.
\<close>

datatype exn =
    QiskitError string
  | JSONDecodeError string
  | KeyError string
  | TypeError string
  | AttributeError string
  | ConnectionError string
  | ValidationError string
  | HTTPException nat string

text \<open>Decimal digits of a natural number, for \<open>str\<close> of a status code.\<close>

function dec :: "nat \<Rightarrow> string" where
  "dec n = (if n < 10 then [''0123456789'' ! n] else dec (n div 10) @ [''0123456789'' ! (n mod 10)])"
  by pat_completeness auto
termination
  by (relation "measure (\<lambda>n. n)") auto

declare dec.simps [simp del]

text \<open>
  \<open>repr\<close> of a string: in double quotes when the string has a single quote and no
  double quote, in single quotes otherwise; a backslash, the enclosing quote, tab,
  newline and carriage return are written with a backslash, the other control characters
  as \<open>\xNN\<close>. A string is its UTF-8 bytes here, and the bytes from 128 on (characters
  outside ASCII) are kept as they are.
\<close>

definition hex2 :: "nat \<Rightarrow> string" where
  "hex2 n = [''0123456789abcdef'' ! (n div 16), ''0123456789abcdef'' ! (n mod 16)]"

definition escape_char :: "char \<Rightarrow> char \<Rightarrow> string" where
  "escape_char quote c =
     (if c = CHR 0x5C then [CHR 0x5C, CHR 0x5C]
      else if c = quote then [CHR 0x5C, quote]
      else if c = CHR 0x09 then [CHR 0x5C, CHR ''t'']
      else if c = CHR 0x0A then [CHR 0x5C, CHR ''n'']
      else if c = CHR 0x0D then [CHR 0x5C, CHR ''r'']
      else if (of_char c :: nat) < 32 \<or> (of_char c :: nat) = 127
        then [CHR 0x5C, CHR ''x''] @ hex2 (of_char c)
      else [c])"

definition py_repr :: "string \<Rightarrow> string" where
  "py_repr s =
     (let quote = (if CHR 0x27 \<in> set s \<and> CHR 0x22 \<notin> set s then CHR 0x22 else CHR 0x27)
      in [quote] @ concat (map (escape_char quote) s) @ [quote])"

text \<open>
  \<open>str(e)\<close>: the message for the built-in exceptions; \<open>repr(self.message)\<close> for a
  QiskitError (its \<open>__str__\<close>); the key's \<open>repr\<close> for a KeyError;
  \<open>"{status_code}: {detail}"\<close> for an HTTPException.
\<close>

fun str_exn :: "exn \<Rightarrow> string" where
  "str_exn (QiskitError m) = py_repr m"
| "str_exn (JSONDecodeError m) = m"
| "str_exn (KeyError k) = py_repr k"
| "str_exn (TypeError m) = m"
| "str_exn (AttributeError m) = m"
| "str_exn (ConnectionError m) = m"
| "str_exn (ValidationError m) = m"
| "str_exn (HTTPException c d) = dec c @ '': '' @ d"

subsection \<open>JSON values\<close>

text \<open>
  What \<open>json.loads\<close> returns and \<open>json.dumps\<close> takes: None, booleans, integers, strings,
  lists, and dicts with string keys (an association list of the dict's items).
\<close>

datatype json =
    JNull
  | JBool bool
  | JInt int
  | JStr string
  | JList "json list"
  | JObj "(string \<times> json) list"

text \<open>Python's truth value of a JSON value (\<open>if not x\<close>, \<open>x or y\<close>).\<close>

fun truthy :: "json \<Rightarrow> bool" where
  "truthy JNull = False"
| "truthy (JBool b) = b"
| "truthy (JInt n) = (n \<noteq> 0)"
| "truthy (JStr s) = (s \<noteq> [])"
| "truthy (JList xs) = (xs \<noteq> [])"
| "truthy (JObj kvs) = (kvs \<noteq> [])"

text \<open>\<open>payload[key]\<close> with a string key: only a dict has it; a missing key is a KeyError.\<close>

fun subscript :: "json \<Rightarrow> string \<Rightarrow> exn + json" where
  "subscript (JObj kvs) k = (case map_of kvs k of None \<Rightarrow> Inl (KeyError k) | Some v \<Rightarrow> Inr v)"
| "subscript v k = Inl (TypeError ''object is not subscriptable with a str key'')"

text \<open>\<open>payload.get(key, default)\<close>: only a dict has \<open>get\<close>.\<close>

fun dict_get :: "json \<Rightarrow> string \<Rightarrow> json \<Rightarrow> exn + json" where
  "dict_get (JObj kvs) k d = (case map_of kvs k of None \<Rightarrow> Inr d | Some v \<Rightarrow> Inr v)"
| "dict_get v k d = Inl (AttributeError ''object has no attribute get'')"

section \<open>common/utils/circuit\_utils.py\<close>

text \<open>
  A \<open>QuantumCircuit\<close> is Qiskit's; the code reads its \<open>num_qubits\<close> and \<open>num_clbits\<close>
  and hands it to Qiskit. \<open>qasm3_dumps\<close>, \<open>qasm3_loads\<close> (Qiskit) and \<open>json.dumps\<close>,
  \<open>json.loads\<close> (standard library) are parameters of the functions that call them. The
  type \<open>'s\<close> is the JSON text on the wire.
\<close>

record circuit =
  num_qubits :: nat
  num_clbits :: nat
  instructions :: "string list"

text \<open>\<open>try: return qasm3_dumps(circuit)  except QiskitError: log; raise\<close>\<close>

definition circuit_to_qasm :: "(circuit \<Rightarrow> exn + string) \<Rightarrow> circuit \<Rightarrow> exn + string" where
  "circuit_to_qasm qasm3_dumps c =
     (case qasm3_dumps c of Inl e \<Rightarrow> Inl e | Inr qasm_str \<Rightarrow> Inr qasm_str)"

text \<open>
  \<open>try: return qasm3_loads(qasm_str)  except QiskitError: log; raise\<close>. The argument
  is declared \<open>str\<close> and not checked: it goes to \<open>qasm3_loads\<close> as it is (type \<open>'q\<close>: a
  string in the worker, the JSON value \<open>payload["qasm"]\<close> in
  \<open>deserialise_circuit_payload\<close>), and what the parser returns or raises for it is the
  result.
\<close>

definition qasm_to_circuit :: "('q \<Rightarrow> exn + circuit) \<Rightarrow> 'q \<Rightarrow> exn + circuit" where
  "qasm_to_circuit qasm3_loads qasm_str =
     (case qasm3_loads qasm_str of Inl e \<Rightarrow> Inl e | Inr c \<Rightarrow> Inr c)"

text \<open>The dict \<open>deserialise_circuit_payload\<close> returns; \<open>shots_value\<close> is its key "shots".\<close>

record circuit_payload =
  circuit :: circuit
  shots_value :: json
  metadata :: json

text \<open>
  \<open>payload["qasm"]\<close> goes to \<open>qasm_to_circuit\<close> as it is, a string (\<open>JStr\<close>) or not.
  Every exception of the body is raised again.
\<close>

definition deserialise_circuit_payload ::
  "(json \<Rightarrow> exn + circuit) \<Rightarrow> ('s \<Rightarrow> exn + json) \<Rightarrow> 's \<Rightarrow> exn + circuit_payload" where
  "deserialise_circuit_payload qasm3_loads json_loads payload_str =
     (case json_loads payload_str of
        Inl e \<Rightarrow> Inl e
      | Inr payload \<Rightarrow>
          (case subscript payload ''qasm'' of
             Inl e \<Rightarrow> Inl e
           | Inr qasm \<Rightarrow>
               (case qasm_to_circuit qasm3_loads qasm of
                  Inl e \<Rightarrow> Inl e
                | Inr c \<Rightarrow>
                    (case dict_get payload ''shots'' (JInt 1024) of
                       Inl e \<Rightarrow> Inl e
                     | Inr sh \<Rightarrow>
                         (case dict_get payload ''metadata'' (JObj []) of
                            Inl e \<Rightarrow> Inl e
                          | Inr md \<Rightarrow>
                              Inr \<lparr>circuit = c, shots_value = sh, metadata = md\<rparr>)))))"

text \<open>\<open>shots or 1024\<close> with \<open>shots: Optional[int]\<close>: None and 0 are falsy.\<close>

fun shots_or_default :: "int option \<Rightarrow> int" where
  "shots_or_default None = 1024"
| "shots_or_default (Some n) = (if n = 0 then 1024 else n)"

text \<open>The dict literal \<open>serialise_circuit_payload\<close> builds.\<close>

definition payload_dict :: "string \<Rightarrow> int option \<Rightarrow> circuit \<Rightarrow> json" where
  "payload_dict qasm shots c =
     JObj [(''qasm'', JStr qasm),
           (''shots'', JInt (shots_or_default shots)),
           (''metadata'', JObj [(''num_qubits'', JInt (int (num_qubits c))),
                                (''num_clbits'', JInt (int (num_clbits c)))])]"

text \<open>
  The handler is \<open>except (QiskitError, TypeError, json.JSONEncodeError)\<close>. The module
  \<open>json\<close> has no \<open>JSONEncodeError\<close>, so when the body raises, evaluating the handler's
  tuple raises AttributeError in place of the body's exception.
\<close>

definition serialise_circuit_payload ::
  "(circuit \<Rightarrow> exn + string) \<Rightarrow> (json \<Rightarrow> 's) \<Rightarrow> circuit \<Rightarrow> int option \<Rightarrow> exn + 's" where
  "serialise_circuit_payload qasm3_dumps json_dumps c shots =
     (case circuit_to_qasm qasm3_dumps c of
        Inl e \<Rightarrow> Inl (AttributeError ''module json has no attribute JSONEncodeError'')
      | Inr qasm \<Rightarrow> Inr (json_dumps (payload_dict qasm shots c)))"

text \<open>\<open>deserialise_circuit_payload(serialise_circuit_payload(c, s))\<close>\<close>

definition payload_round_trip ::
  "(circuit \<Rightarrow> exn + string) \<Rightarrow> (json \<Rightarrow> exn + circuit) \<Rightarrow> (json \<Rightarrow> 's) \<Rightarrow>
   ('s \<Rightarrow> exn + json) \<Rightarrow> circuit \<Rightarrow> int option \<Rightarrow> exn + circuit_payload" where
  "payload_round_trip qasm3_dumps qasm3_loads json_dumps json_loads c s =
     (case serialise_circuit_payload qasm3_dumps json_dumps c s of
        Inl e \<Rightarrow> Inl e
      | Inr payload_str \<Rightarrow> deserialise_circuit_payload qasm3_loads json_loads payload_str)"

section \<open>common/models.py\<close>

datatype TaskStatus = PENDING | PROCESSING | COMPLETED | FAILED

text \<open>
  \<open>class Task(BaseModel)\<close>, and the dict of the same keys that \<open>model_dump\<close> gives and
  Redis holds as JSON text (the status as its string, the timestamps as ISO-8601 strings).
  The field \<open>id\<close> is \<open>id'\<close> here. \<open>result\<close> is a \<open>Dict[str, int]\<close>; None is an absent
  \<open>result\<close>, \<open>error\<close> or \<open>completed_at\<close>.
\<close>

record task =
  id' :: string
  circuit_qasm :: string
  shots :: int
  status :: TaskStatus
  result :: "(string \<times> int) list option"
  error :: "string option"
  created_at :: string
  completed_at :: "string option"

text \<open>
  \<open>class TaskRequest(BaseModel)\<close>: \<open>shots: int = Field(default=1024, gt=0)\<close>. Pydantic
  refuses a value that is not greater than 0. No function of the repository uses this
  model.
\<close>

definition TaskRequest :: "string \<Rightarrow> int option \<Rightarrow> exn + string \<times> int" where
  "TaskRequest quantum_circuit shots_field =
     (case shots_field of
        None \<Rightarrow> Inr (quantum_circuit, 1024)
      | Some n \<Rightarrow>
          if 0 < n then Inr (quantum_circuit, n)
          else Inl (ValidationError ''Input should be greater than 0''))"

section \<open>The services: Redis and the calls made to them\<close>

text \<open>
  What the processes do to the outside is a trace: every \<open>redis.set\<close> that returned and
  every call of \<open>nc.publish\<close>, in order.
\<close>

datatype event =
    RedisSet string task
  | NcPublish string json

text \<open>
  Redis holds one JSON text per key \<open>task:{task_id}\<close>: \<open>store\<close> maps a task id to the
  record that text encodes.
\<close>

record services =
  store :: "string \<rightharpoonup> task"
  trace :: "event list"

text \<open>The records that were written to Redis, oldest first.\<close>

fun persisted :: "event list \<Rightarrow> task list" where
  "persisted [] = []"
| "persisted (RedisSet k t # es) = t # persisted es"
| "persisted (NcPublish sub m # es) = persisted es"

subsection \<open>common/redis\_client.py\<close>

text \<open>
  \<open>RedisClient.set_task\<close> and \<open>get_task\<close> connect when there is no connection, then call
  Redis; an exception of either step is raised to the caller. The first argument says
  whether this call raises (\<open>Some e\<close>) or reaches Redis. A call that raises writes nothing.
\<close>

definition redis_set_task ::
  "exn option \<Rightarrow> string \<Rightarrow> task \<Rightarrow> 'a services_scheme \<Rightarrow> exn + 'a services_scheme" where
  "redis_set_task fault task_id task_data s =
     (case fault of
        Some e \<Rightarrow> Inl e
      | None \<Rightarrow>
          Inr (s\<lparr>store := (store s)(task_id \<mapsto> task_data),
                 trace := trace s @ [RedisSet task_id task_data]\<rparr>))"

definition redis_get_task ::
  "exn option \<Rightarrow> string \<Rightarrow> 'a services_scheme \<Rightarrow> exn + task option" where
  "redis_get_task fault task_id s =
     (case fault of Some e \<Rightarrow> Inl e | None \<Rightarrow> Inr (store s task_id))"

subsection \<open>common/nats\_client.py\<close>

text \<open>
  \<open>NATSClient\<close>: \<open>nc\<close> says whether \<open>self.nc\<close> is a connection (not None). The
  connection's property \<open>is_connected\<close> is the library's, and changes when the link
  drops or comes back: \<open>link\<close> lists the values its next reads return, False once the
  list is used up.
\<close>

record nats_client =
  nc :: bool
  link :: "bool list"

text \<open>\<open>return self.nc is not None and self.nc.is_connected\<close>\<close>

definition is_connected :: "nats_client \<Rightarrow> bool \<times> nats_client" where
  "is_connected n =
     (if \<not> nc n then (False, n)
      else (case link n of [] \<Rightarrow> (False, n) | b # bs \<Rightarrow> (b, n\<lparr>link := bs\<rparr>)))"

text \<open>
  \<open>connect\<close>: nothing when connected; else \<open>self.nc = await nats.connect(self.server)\<close>,
  whose exception (the first argument) is logged and not raised.
\<close>

definition connect :: "exn option \<Rightarrow> nats_client \<Rightarrow> (exn + unit) \<times> nats_client" where
  "connect connect_fault n =
     (case is_connected n of
        (True, n1) \<Rightarrow> (Inr (), n1)
      | (False, n1) \<Rightarrow>
          (case connect_fault of
             Some e \<Rightarrow> (Inr (), n1)
           | None \<Rightarrow> (Inr (), n1\<lparr>nc := True\<rparr>)))"

text \<open>
  The second \<open>try\<close> of \<open>publish\<close>: when connected, \<open>await self.nc.publish(subject,
  message)\<close>, whose exception (\<open>publish_fault\<close>) is logged and not raised; else a warning.
\<close>

definition publish_try ::
  "exn option \<Rightarrow> string \<Rightarrow> json \<Rightarrow> nats_client \<Rightarrow> event list \<Rightarrow>
   (exn + unit) \<times> nats_client \<times> event list" where
  "publish_try publish_fault subject payload n tr =
     (case is_connected n of
        (True, n1) \<Rightarrow>
          (case publish_fault of
             Some e \<Rightarrow> (Inr (), n1, tr @ [NcPublish subject payload])
           | None \<Rightarrow> (Inr (), n1, tr @ [NcPublish subject payload]))
      | (False, n1) \<Rightarrow> (Inr (), n1, tr))"

text \<open>
  \<open>publish\<close>: when not connected, \<open>connect\<close> first (an exception of it: return); then the
  second \<open>try\<close>.
\<close>

definition publish ::
  "exn option \<Rightarrow> exn option \<Rightarrow> string \<Rightarrow> json \<Rightarrow> nats_client \<Rightarrow> event list \<Rightarrow>
   (exn + unit) \<times> nats_client \<times> event list" where
  "publish connect_fault publish_fault subject payload n tr =
     (case is_connected n of
        (True, n1) \<Rightarrow> publish_try publish_fault subject payload n1 tr
      | (False, n1) \<Rightarrow>
          (case connect connect_fault n1 of
             (Inl e, n2) \<Rightarrow> (Inr (), n2, tr)
           | (Inr u, n2) \<Rightarrow> publish_try publish_fault subject payload n2 tr))"

section \<open>api/main.py\<close>

text \<open>
  The API process: the services and its NATS client. \<open>class QuantumCircuitRequest\<close> has
  \<open>quantum_circuit: str\<close> and \<open>shots: int\<close>, with no constraint on either; its \<open>shots\<close>
  is \<open>request_shots\<close> here.
\<close>

record api = services +
  nats :: nats_client

record QuantumCircuitRequest =
  quantum_circuit :: string
  request_shots :: int

text \<open>What one call of \<open>submit_task\<close> gets from outside: the uuid, the clock, and whether
  the Redis call, \<open>nats.connect\<close> and \<open>nc.publish\<close> raise.\<close>

record submit_env =
  uuid4 :: string
  utcnow :: string
  set_fault :: "exn option"
  connect_fault :: "exn option"
  publish_fault :: "exn option"

text \<open>\<open>Task(id=task_id, circuit_qasm=..., shots=..., status=PENDING, created_at=...)\<close>\<close>

definition new_task :: "submit_env \<Rightarrow> QuantumCircuitRequest \<Rightarrow> task" where
  "new_task env request =
     \<lparr>id' = uuid4 env, circuit_qasm = quantum_circuit request, shots = request_shots request,
      status = PENDING, result = None, error = None, created_at = utcnow env,
      completed_at = None\<rparr>"

text \<open>The first inner \<open>try\<close>: store the task; an exception becomes HTTPException 500.\<close>

definition submit_store :: "submit_env \<Rightarrow> task \<Rightarrow> api \<Rightarrow> exn + api" where
  "submit_store env t a =
     (case redis_set_task (set_fault env) (id' t) t a of
        Inl e \<Rightarrow> Inl (HTTPException 500 (''Redis error: '' @ str_exn e))
      | Inr a1 \<Rightarrow> Inr a1)"

text \<open>The second inner \<open>try\<close>: publish when connected; every exception is logged only.\<close>

definition submit_notify :: "submit_env \<Rightarrow> string \<Rightarrow> api \<Rightarrow> (exn + unit) \<times> api" where
  "submit_notify env task_id a =
     (case is_connected (nats a) of
        (True, n1) \<Rightarrow>
          (case publish (connect_fault env) (publish_fault env) ''tasks''
                  (JObj [(''task_id'', JStr task_id)]) n1 (trace a) of
             (Inl e, n2, tr) \<Rightarrow> (Inr (), a\<lparr>nats := n2, trace := tr\<rparr>)
           | (Inr u, n2, tr) \<Rightarrow> (Inr (), a\<lparr>nats := n2, trace := tr\<rparr>))
      | (False, n1) \<Rightarrow> (Inr (), a\<lparr>nats := n1\<rparr>))"

text \<open>
  \<open>submit_task\<close>: the outer \<open>try\<close> catches every exception of its body, the
  HTTPException of the first inner \<open>try\<close> too, and raises HTTPException 500 with
  \<open>"Error creating task: " + str(e)\<close>.
\<close>

definition submit_task :: "submit_env \<Rightarrow> QuantumCircuitRequest \<Rightarrow> api \<Rightarrow> (exn + json) \<times> api" where
  "submit_task env request a =
     (let task_id = uuid4 env; t = new_task env request in
      case submit_store env t a of
        Inl e \<Rightarrow> (Inl (HTTPException 500 (''Error creating task: '' @ str_exn e)), a)
      | Inr a1 \<Rightarrow>
          (case submit_notify env task_id a1 of
             (Inl e, a2) \<Rightarrow> (Inl (HTTPException 500 (''Error creating task: '' @ str_exn e)), a2)
           | (Inr u, a2) \<Rightarrow>
               (Inr (JObj [(''task_id'', JStr task_id), (''status'', JStr ''pending'')]), a2)))"

text \<open>
  \<open>get_task\<close> of the API: HTTPException 404 when \<open>redis_client.get_task\<close> gives None;
  its own HTTPException is raised again; any other exception becomes HTTPException 500.
\<close>

definition get_task :: "exn option \<Rightarrow> string \<Rightarrow> 'a services_scheme \<Rightarrow> exn + task" where
  "get_task get_fault task_id s =
     (case redis_get_task get_fault task_id s of
        Inl e \<Rightarrow> Inl (HTTPException 500 ''Failed to retrieve task'')
      | Inr None \<Rightarrow> Inl (HTTPException 404 ''Task not found'')
      | Inr (Some task_data) \<Rightarrow> Inr task_data)"

section \<open>worker/main.py\<close>

subsection \<open>The task processor\<close>

text \<open>
  \<open>execute_circuit\<close> (circuit\_utils.py) runs the simulator in the thread pool and
  raises what it raises.
\<close>

definition execute_circuit ::
  "(circuit \<Rightarrow> int \<Rightarrow> exn + (string \<times> int) list) \<Rightarrow> circuit \<Rightarrow> int \<Rightarrow>
   exn + (string \<times> int) list" where
  "execute_circuit simulator_run c n =
     (case simulator_run c n of Inl e \<Rightarrow> Inl e | Inr counts \<Rightarrow> Inr counts)"

text \<open>The worker process: the services and its set \<open>active_tasks\<close>.\<close>

record worker = services +
  active_tasks :: "string set"

text \<open>
  What one run of \<open>process_task\<close> gets from outside, in the order of its calls: whether
  each Redis call raises, Qiskit's parser, the simulator, and the clock at
  \<open>task_data["completed_at"] = datetime.now(timezone.utc)\<close>.
\<close>

record run_env =
  load_fault :: "exn option"
  set_processing_fault :: "exn option"
  run_qasm3_loads :: "string \<Rightarrow> exn + circuit"
  run_simulator :: "circuit \<Rightarrow> int \<Rightarrow> exn + (string \<times> int) list"
  completed_now :: string
  set_completed_fault :: "exn option"
  error_load_fault :: "exn option"
  failed_now :: string
  set_failed_fault :: "exn option"

text \<open>
  The \<open>try\<close> block of \<open>process_task\<close>: load the task (stop when there is none), write it
  back as PROCESSING, parse and execute the circuit, write it back as COMPLETED with the
  counts. It stops at the first exception, with the services as they are then.
\<close>

definition process_task_try :: "run_env \<Rightarrow> string \<Rightarrow> worker \<Rightarrow> (exn + unit) \<times> worker" where
  "process_task_try env task_id w =
     (case redis_get_task (load_fault env) task_id w of
        Inl e \<Rightarrow> (Inl e, w)
      | Inr None \<Rightarrow> (Inr (), w)
      | Inr (Some task_data) \<Rightarrow>
          (let td1 = task_data\<lparr>status := PROCESSING\<rparr> in
           case redis_set_task (set_processing_fault env) task_id td1 w of
             Inl e \<Rightarrow> (Inl e, w)
           | Inr w1 \<Rightarrow>
               (case qasm_to_circuit (run_qasm3_loads env) (circuit_qasm td1) of
                  Inl e \<Rightarrow> (Inl e, w1)
                | Inr c \<Rightarrow>
                    (case execute_circuit (run_simulator env) c (shots td1) of
                       Inl e \<Rightarrow> (Inl e, w1)
                     | Inr counts \<Rightarrow>
                         (let td2 = td1\<lparr>result := Some counts, status := COMPLETED,
                                        completed_at := Some (completed_now env)\<rparr> in
                          case redis_set_task (set_completed_fault env) task_id td2 w1 of
                            Inl e \<Rightarrow> (Inl e, w1)
                          | Inr w2 \<Rightarrow> (Inr (), w2))))))"

text \<open>
  The \<open>try\<close> block of \<open>handle_task_error\<close>: load the task again and, when there is one,
  write it back as FAILED with the message.
\<close>

definition handle_task_error_try ::
  "run_env \<Rightarrow> string \<Rightarrow> string \<Rightarrow> worker \<Rightarrow> (exn + unit) \<times> worker" where
  "handle_task_error_try env task_id error_message w =
     (case redis_get_task (error_load_fault env) task_id w of
        Inl e \<Rightarrow> (Inl e, w)
      | Inr None \<Rightarrow> (Inr (), w)
      | Inr (Some task_data) \<Rightarrow>
          (let td = task_data\<lparr>status := FAILED, error := Some error_message,
                              completed_at := Some (failed_now env)\<rparr> in
           case redis_set_task (set_failed_fault env) task_id td w of
             Inl e \<Rightarrow> (Inl e, w)
           | Inr w1 \<Rightarrow> (Inr (), w1)))"

text \<open>\<open>handle_task_error\<close>: \<open>except Exception\<close> logs and returns.\<close>

definition handle_task_error ::
  "run_env \<Rightarrow> string \<Rightarrow> string \<Rightarrow> worker \<Rightarrow> (exn + unit) \<times> worker" where
  "handle_task_error env task_id error_message w =
     (case handle_task_error_try env task_id error_message w of
        (Inl e, w1) \<Rightarrow> (Inr (), w1)
      | (Inr u, w1) \<Rightarrow> (Inr u, w1))"

text \<open>
  \<open>process_task\<close>: add the id to \<open>active_tasks\<close>; run the \<open>try\<close> block; \<open>except
  Exception as e\<close> calls \<open>handle_task_error(task_id, str(e))\<close>; \<open>finally\<close> discards the
  id. The first component is what the coroutine raises, if anything.
\<close>

definition process_task :: "run_env \<Rightarrow> string \<Rightarrow> worker \<Rightarrow> (exn + unit) \<times> worker" where
  "process_task env task_id w =
     (let w0 = w\<lparr>active_tasks := insert task_id (active_tasks w)\<rparr>;
          (r, w2) = (case process_task_try env task_id w0 of
                       (Inl e, w1) \<Rightarrow> handle_task_error env task_id (str_exn e) w1
                     | (Inr u, w1) \<Rightarrow> (Inr u, w1))
      in (r, w2\<lparr>active_tasks := active_tasks w2 - {task_id}\<rparr>))"

text \<open>
  Processor runs one after the other, each for the task id of one notification and with
  its own outside.
\<close>

fun process_all :: "(run_env \<times> string) list \<Rightarrow> worker \<Rightarrow> worker" where
  "process_all [] w = w"
| "process_all ((env, task_id) # runs) w = process_all runs (snd (process_task env task_id w))"

subsection \<open>The processor, one await at a time\<close>

text \<open>
  \<open>process_task\<close> is a coroutine: the dispatch loop creates one task per admitted
  notification, and the event loop switches between them where they await. A stage says
  where a run is suspended and what its local \<open>task_data\<close> is: created and not started;
  awaiting the first \<open>get_task\<close>; awaiting the \<open>set_task\<close> of the PROCESSING record;
  awaiting \<open>execute_circuit\<close>; awaiting the \<open>set_task\<close> of the COMPLETED record; in
  \<open>handle_task_error\<close>, awaiting \<open>get_task\<close> (with the error message) and then \<open>set_task\<close>
  of the FAILED record; done.
\<close>

datatype stage =
    Created
  | AtLoad
  | AtSetProcessing task
  | AtExecute task circuit
  | AtSetCompleted task
  | AtErrorLoad string
  | AtSetFailed task
  | Finished

text \<open>\<open>finally: active_tasks.discard(task_id)\<close>\<close>

definition discard :: "string \<Rightarrow> worker \<Rightarrow> worker" where
  "discard task_id w = w\<lparr>active_tasks := active_tasks w - {task_id}\<rparr>"

text \<open>
  One step of a run: from where it is suspended to its next await, or to its end. The
  code between two awaits runs without interruption.
\<close>

fun step :: "run_env \<Rightarrow> string \<Rightarrow> stage \<Rightarrow> worker \<Rightarrow> stage \<times> worker" where
  "step env task_id Created w = (AtLoad, w\<lparr>active_tasks := insert task_id (active_tasks w)\<rparr>)"
| "step env task_id AtLoad w =
     (case redis_get_task (load_fault env) task_id w of
        Inl e \<Rightarrow> (AtErrorLoad (str_exn e), w)
      | Inr None \<Rightarrow> (Finished, discard task_id w)
      | Inr (Some task_data) \<Rightarrow> (AtSetProcessing (task_data\<lparr>status := PROCESSING\<rparr>), w))"
| "step env task_id (AtSetProcessing td1) w =
     (case redis_set_task (set_processing_fault env) task_id td1 w of
        Inl e \<Rightarrow> (AtErrorLoad (str_exn e), w)
      | Inr w1 \<Rightarrow>
          (case qasm_to_circuit (run_qasm3_loads env) (circuit_qasm td1) of
             Inl e \<Rightarrow> (AtErrorLoad (str_exn e), w1)
           | Inr c \<Rightarrow> (AtExecute td1 c, w1)))"
| "step env task_id (AtExecute td1 c) w =
     (case execute_circuit (run_simulator env) c (shots td1) of
        Inl e \<Rightarrow> (AtErrorLoad (str_exn e), w)
      | Inr counts \<Rightarrow>
          (AtSetCompleted (td1\<lparr>result := Some counts, status := COMPLETED,
                               completed_at := Some (completed_now env)\<rparr>), w))"
| "step env task_id (AtSetCompleted td2) w =
     (case redis_set_task (set_completed_fault env) task_id td2 w of
        Inl e \<Rightarrow> (AtErrorLoad (str_exn e), w)
      | Inr w2 \<Rightarrow> (Finished, discard task_id w2))"
| "step env task_id (AtErrorLoad error_message) w =
     (case redis_get_task (error_load_fault env) task_id w of
        Inl e \<Rightarrow> (Finished, discard task_id w)
      | Inr None \<Rightarrow> (Finished, discard task_id w)
      | Inr (Some task_data) \<Rightarrow>
          (AtSetFailed (task_data\<lparr>status := FAILED, error := Some error_message,
                                  completed_at := Some (failed_now env)\<rparr>), w))"
| "step env task_id (AtSetFailed td) w =
     (case redis_set_task (set_failed_fault env) task_id td w of
        Inl e \<Rightarrow> (Finished, discard task_id w)
      | Inr w1 \<Rightarrow> (Finished, discard task_id w1))"
| "step env task_id Finished w = (Finished, w)"

text \<open>A run to its end, with no other run in between: seven steps are enough.\<close>

definition run_alone :: "run_env \<Rightarrow> string \<Rightarrow> worker \<Rightarrow> stage \<times> worker" where
  "run_alone env task_id w = ((\<lambda>(st, w). step env task_id st w) ^^ 7) (Created, w)"

text \<open>
  The runs of the worker: each with its outside, its task id and its stage. A schedule
  lists which run the event loop resumes next, by its index; an index of no run does
  nothing.
\<close>

type_synonym pool = "(run_env \<times> string \<times> stage) list"

fun interleave :: "nat list \<Rightarrow> pool \<Rightarrow> worker \<Rightarrow> pool \<times> worker" where
  "interleave [] p w = (p, w)"
| "interleave (i # sched) p w =
     (if i < length p
      then (case p ! i of
              (env, task_id, st) \<Rightarrow>
                (case step env task_id st w of
                   (st1, w1) \<Rightarrow> interleave sched (p[i := (env, task_id, st1)]) w1))
      else interleave sched p w)"

text \<open>The pool the dispatch loop makes from notifications: every run just created.\<close>

definition created :: "(run_env \<times> string) list \<Rightarrow> pool" where
  "created runs = map (\<lambda>(env, task_id). (env, task_id, Created)) runs"

text \<open>The schedule that runs \<open>n\<close> runs one after the other, each to its end.\<close>

fun one_by_one :: "nat \<Rightarrow> nat list" where
  "one_by_one 0 = []"
| "one_by_one (Suc n) = replicate 7 0 @ map Suc (one_by_one n)"

subsection \<open>The dispatch loop\<close>

text \<open>
  \<open>sem = asyncio.Semaphore(max_concurrent_tasks)\<close>: \<open>sem\<close> is its value. \<open>in_flight\<close> are
  the task ids of the tasks made by \<open>asyncio.create_task(process_task(task_id))\<close> that are
  not done.
\<close>

record dispatcher =
  sem :: nat
  in_flight :: "json list"

text \<open>\<open>sem.release()\<close> adds one to the value; an \<open>asyncio.Semaphore\<close> has no upper bound.\<close>

definition release :: "dispatcher \<Rightarrow> dispatcher" where
  "release d = d\<lparr>sem := sem d + 1\<rparr>"

text \<open>\<open>await sem.acquire()\<close> takes one from a positive value; at 0 the coroutine is
  suspended (None) until a release.\<close>

definition acquire :: "dispatcher \<Rightarrow> dispatcher option" where
  "acquire d = (if 0 < sem d then Some (d\<lparr>sem := sem d - 1\<rparr>) else None)"

text \<open>
  \<open>handle_task_message\<close>: \<open>json.loads(msg.data.decode())\<close> and \<open>payload.get("task_id")\<close>
  are inside the \<open>try\<close>, whose handler logs and calls \<open>sem.release()\<close>. A message with no
  task id returns. Else: acquire, create the task.
\<close>

definition handle_task_message ::
  "('s \<Rightarrow> exn + json) \<Rightarrow> 's \<Rightarrow> dispatcher \<Rightarrow> dispatcher option" where
  "handle_task_message json_loads data d =
     (case json_loads data of
        Inl e \<Rightarrow> Some (release d)
      | Inr payload \<Rightarrow>
          (case dict_get payload ''task_id'' JNull of
             Inl e \<Rightarrow> Some (release d)
           | Inr task_id \<Rightarrow>
               if \<not> truthy task_id then Some d
               else (case acquire d of
                       None \<Rightarrow> None
                     | Some d1 \<Rightarrow> Some (d1\<lparr>in_flight := in_flight d1 @ [task_id]\<rparr>))))"

text \<open>The done callback of a created task: \<open>lambda _: sem.release()\<close>.\<close>

definition task_done :: "json \<Rightarrow> dispatcher \<Rightarrow> dispatcher" where
  "task_done task_id d = release (d\<lparr>in_flight := remove1 task_id (in_flight d)\<rparr>)"

text \<open>Messages handled one after the other; None when one of them is suspended.\<close>

fun handle_all :: "('s \<Rightarrow> exn + json) \<Rightarrow> 's list \<Rightarrow> dispatcher \<Rightarrow> dispatcher option" where
  "handle_all json_loads [] d = Some d"
| "handle_all json_loads (m # ms) d =
     (case handle_task_message json_loads m d of
        None \<Rightarrow> None
      | Some d1 \<Rightarrow> handle_all json_loads ms d1)"

subsection \<open>Shutdown\<close>

text \<open>
  Time is in milliseconds. \<open>asyncio.sleep(0.1)\<close> takes 100; \<open>asyncio.gather\<close> runs its
  awaitables together and is done when the last one is; \<open>asyncio.wait_for(aw, timeout)\<close>
  is done when \<open>aw\<close> is, or raises TimeoutError once the timeout has passed.
\<close>

definition shutdown_timeout :: nat where
  "shutdown_timeout = 10000"

definition gather :: "nat list \<Rightarrow> nat" where
  "gather durations = fold max durations 0"

definition wait_for :: "nat \<Rightarrow> nat \<Rightarrow> bool \<times> nat" where
  "wait_for duration timeout =
     (if duration \<le> timeout then (False, duration) else (True, timeout))"

text \<open>
  What \<open>shutdown\<close> does, as times after the signal: \<open>closed_at\<close> is when it goes on to
  disconnect from NATS and Redis, \<open>timeout_reached\<close> whether \<open>asyncio.TimeoutError\<close> was
  caught, \<open>still_active\<close> the tasks active at that moment.
\<close>

record shutdown_report =
  closed_at :: nat
  timeout_reached :: bool
  still_active :: "string list"

text \<open>
  \<open>shutdown\<close>, given the active tasks and, for each, the time after the signal at which
  its processing ends: with active tasks it awaits \<open>wait_for(gather(*[sleep(0.1) for _ in
  range(len(active_tasks))]), timeout=10)\<close>, then disconnects.
\<close>

definition shutdown :: "(string \<times> nat) list \<Rightarrow> shutdown_report" where
  "shutdown active =
     (let (timed_out, waited) =
            (if active \<noteq> []
             then wait_for (gather (map (\<lambda>_. 100) [0..<length active])) shutdown_timeout
             else (False, 0))
      in \<lparr>closed_at = waited, timeout_reached = timed_out,
          still_active = map fst (filter (\<lambda>(task_id, ends_at). waited < ends_at) active)\<rparr>)"

section \<open>Invariants\<close>

text \<open>
  The invariant of the data model on one record: \<open>result\<close> is present exactly when the
  status is COMPLETED, \<open>error\<close> exactly when it is FAILED, and never both.
\<close>

definition result_error_ok :: "task \<Rightarrow> bool" where
  "result_error_ok t =
     (((result t \<noteq> None) = (status t = COMPLETED)) \<and>
      ((error t \<noteq> None) = (status t = FAILED)) \<and>
      \<not> (result t \<noteq> None \<and> error t \<noteq> None))"

text \<open>The local \<open>task_data\<close> a run is about to write does not have the status PENDING.\<close>

fun writes_no_pending :: "stage \<Rightarrow> bool" where
  "writes_no_pending (AtSetProcessing td) = (status td \<noteq> PENDING)"
| "writes_no_pending (AtSetCompleted td) = (status td \<noteq> PENDING)"
| "writes_no_pending (AtSetFailed td) = (status td \<noteq> PENDING)"
| "writes_no_pending st = True"

text \<open>A record, if there is one, with neither result nor error.\<close>

definition clean :: "task option \<Rightarrow> bool" where
  "clean r = (case r of None \<Rightarrow> True | Some t \<Rightarrow> result t = None \<and> error t = None)"

text \<open>
  What holds of a run that is the only one for its task id and started on a clean record,
  given the record \<open>r\<close> now stored for the id: until the run has written a final state
  the stored record is clean, and the local \<open>task_data\<close> has the status, result and error
  of the stage.
\<close>

fun stage_inv :: "task option \<Rightarrow> stage \<Rightarrow> bool" where
  "stage_inv r Created = clean r"
| "stage_inv r AtLoad = clean r"
| "stage_inv r (AtSetProcessing td) =
     (clean r \<and> status td = PROCESSING \<and> result td = None \<and> error td = None)"
| "stage_inv r (AtExecute td c) =
     (clean r \<and> status td = PROCESSING \<and> result td = None \<and> error td = None)"
| "stage_inv r (AtSetCompleted td) =
     (clean r \<and> status td = COMPLETED \<and> result td \<noteq> None \<and> error td = None)"
| "stage_inv r (AtErrorLoad m) = clean r"
| "stage_inv r (AtSetFailed td) =
     (clean r \<and> status td = FAILED \<and> result td = None \<and> error td \<noteq> None)"
| "stage_inv r Finished = True"

text \<open>The record a stage is about to write, if it is at a \<open>set_task\<close>.\<close>

fun pending_write :: "stage \<Rightarrow> task option" where
  "pending_write (AtSetProcessing td) = Some td"
| "pending_write (AtSetCompleted td) = Some td"
| "pending_write (AtSetFailed td) = Some td"
| "pending_write st = None"

text \<open>A record that is there and COMPLETED or FAILED.\<close>

definition is_final :: "task option \<Rightarrow> bool" where
  "is_final r = (case r of None \<Rightarrow> False | Some t \<Rightarrow> status t = COMPLETED \<or> status t = FAILED)"

text \<open>
  What holds of a run that is the only one for its task id and started on a record that
  was not final, given the record \<open>r\<close> now stored for the id: as long as the run is not
  done the stored record is not final, and the first record it writes is PROCESSING.
\<close>

fun live_inv :: "task option \<Rightarrow> stage \<Rightarrow> bool" where
  "live_inv r (AtSetProcessing td) = (\<not> is_final r \<and> status td = PROCESSING)"
| "live_inv r Finished = True"
| "live_inv r st = (\<not> is_final r)"

section \<open>Concrete inputs\<close>

text \<open>A Bell-state circuit, its task as \<open>submit_task\<close> stores it, and outsides of a run.\<close>

definition bell :: circuit where
  "bell = \<lparr>num_qubits = 2, num_clbits = 2,
            instructions = [''h q[0]'', ''cx q[0], q[1]'', ''measure'']\<rparr>"

definition bell_qasm :: string where
  "bell_qasm = ''OPENQASM 3.0; qubit[2] q; bit[2] c; h q[0]; cx q[0], q[1]; c = measure q;''"

definition pending_task :: task where
  "pending_task =
     \<lparr>id' = ''t1'', circuit_qasm = bell_qasm, shots = 100, status = PENDING, result = None,
      error = None, created_at = ''2025-01-01T00:00:00'', completed_at = None\<rparr>"

definition completed_task :: task where
  "completed_task =
     pending_task\<lparr>status := COMPLETED, result := Some [(''00'', 52), (''11'', 48)],
                  completed_at := Some ''2025-01-01T00:00:05''\<rparr>"

text \<open>The task after a run in which the simulator raised.\<close>

definition failed_task :: task where
  "failed_task =
     pending_task\<lparr>status := FAILED, error := Some (str_exn (QiskitError ''simulation failed'')),
                  completed_at := Some ''2025-01-01T00:01:01''\<rparr>"

text \<open>Every call succeeds and the simulator returns counts.\<close>

definition ok_env :: run_env where
  "ok_env =
     \<lparr>load_fault = None, set_processing_fault = None,
      run_qasm3_loads = (\<lambda>q. Inr bell),
      run_simulator = (\<lambda>c n. Inr [(''00'', 52), (''11'', 48)]),
      completed_now = ''2025-01-01T00:01:00'', set_completed_fault = None,
      error_load_fault = None, failed_now = ''2025-01-01T00:01:01'',
      set_failed_fault = None\<rparr>"

text \<open>The simulator raises; every Redis call succeeds.\<close>

definition engine_fails_env :: run_env where
  "engine_fails_env = ok_env\<lparr>run_simulator := (\<lambda>c n. Inl (QiskitError ''simulation failed''))\<rparr>"

text \<open>Redis is unreachable once the task is PROCESSING: both later writes raise.\<close>

definition redis_lost_env :: run_env where
  "redis_lost_env =
     ok_env\<lparr>set_completed_fault := Some (ConnectionError ''connection lost''),
            error_load_fault := Some (ConnectionError ''connection lost'')\<rparr>"

definition worker_with :: "task \<Rightarrow> worker" where
  "worker_with t = \<lparr>store = [''t1'' \<mapsto> t], trace = [], active_tasks = {}\<rparr>"

text \<open>An API process with a connected NATS client and an empty store.\<close>

definition api0 :: api where
  "api0 = \<lparr>store = Map.empty, trace = [], nats = \<lparr>nc = True, link = [True, True, True]\<rparr>\<rparr>"

definition submit_ok_env :: submit_env where
  "submit_ok_env =
     \<lparr>uuid4 = ''t1'', utcnow = ''2025-01-01T00:00:00'', set_fault = None,
      connect_fault = None, publish_fault = None\<rparr>"

text \<open>A message's data: None when it is not JSON text, else the value it encodes.\<close>

definition loads_option :: "json option \<Rightarrow> exn + json" where
  "loads_option data =
     (case data of None \<Rightarrow> Inl (JSONDecodeError ''Expecting value'') | Some v \<Rightarrow> Inr v)"

definition notification :: "string \<Rightarrow> json option" where
  "notification task_id = Some (JObj [(''task_id'', JStr task_id)])"

section \<open>Lemmas on the models\<close>

lemma persisted_append: "persisted (xs @ ys) = persisted xs @ persisted ys"
  by (induction xs rule: persisted.induct) simp_all

lemmas run_defs = process_task_def process_task_try_def handle_task_error_def
  handle_task_error_try_def redis_get_task_def redis_set_task_def qasm_to_circuit_def
  execute_circuit_def

lemmas submit_defs = submit_task_def submit_store_def submit_notify_def publish_def
  publish_try_def connect_def is_connected_def redis_set_task_def new_task_def

lemmas example_defs = ok_env_def engine_fails_env_def redis_lost_env_def worker_with_def
  pending_task_def completed_task_def bell_def bell_qasm_def api0_def submit_ok_env_def
  loads_option_def notification_def

text \<open>With active tasks, \<open>shutdown\<close> waits 100 ms, whatever the tasks do.\<close>

lemma gather_sleeps: "gather (map (\<lambda>_. 100) [0..<n]) = (if n = 0 then 0 else 100)"
  by (induction n) (auto simp: gather_def)

lemma shutdown_waits_100ms:
  "active \<noteq> [] \<Longrightarrow> closed_at (shutdown active) = 100 \<and> \<not> timeout_reached (shutdown active)"
  by (simp add: shutdown_def gather_sleeps wait_for_def shutdown_timeout_def)

text \<open>A message that is not JSON text adds one to the semaphore.\<close>

lemma malformed_message_releases:
  "json_loads m = Inl e \<Longrightarrow> handle_task_message json_loads m d = Some (d\<lparr>sem := sem d + 1\<rparr>)"
  by (simp add: handle_task_message_def release_def)

text \<open>A notification with a task id takes one slot when one is free, and the done
  callback of its task gives it back.\<close>

lemma admitted_task_holds_one_slot:
  assumes "json_loads m = Inr (JObj [(''task_id'', JStr k)])" and "k \<noteq> []" and "0 < sem d"
  shows "\<exists>d1. handle_task_message json_loads m d = Some d1 \<and> sem d1 = sem d - 1 \<and>
              in_flight d1 = in_flight d @ [JStr k] \<and> sem (task_done (JStr k) d1) = sem d"
  using assms
  by (simp add: handle_task_message_def acquire_def release_def task_done_def)

text \<open>The bus side of \<open>submit_task\<close>: it raises nothing, leaves the store alone, and adds
  at most one publish to the trace.\<close>

lemma publish_try_effect:
  "\<exists>n'. publish_try pf subject payload n tr = (Inr (), n', tr) \<or>
        publish_try pf subject payload n tr = (Inr (), n', tr @ [NcPublish subject payload])"
  by (cases "is_connected n")
    (auto simp: publish_try_def split: bool.splits option.splits)

lemma publish_effect:
  "\<exists>n'. publish cf pf subject payload n tr = (Inr (), n', tr) \<or>
        publish cf pf subject payload n tr = (Inr (), n', tr @ [NcPublish subject payload])"
proof (cases "is_connected n")
  case (Pair b n1)
  show ?thesis
  proof (cases b)
    case True
    with Pair show ?thesis
      using publish_try_effect [of pf subject payload n1 tr] by (simp add: publish_def)
  next
    case False
    obtain r n2 where c: "connect cf n1 = (r, n2)" by (cases "connect cf n1")
    then have "r = Inr ()"
      by (cases "is_connected n1") (auto simp: connect_def split: bool.splits option.splits)
    with Pair False c show ?thesis
      using publish_try_effect [of pf subject payload n2 tr] by (simp add: publish_def)
  qed
qed

lemma submit_notify_effect:
  "\<exists>n'. submit_notify env task_id a = (Inr (), a\<lparr>nats := n'\<rparr>) \<or>
        submit_notify env task_id a
          = (Inr (), a\<lparr>nats := n',
                       trace := trace a @ [NcPublish ''tasks'' (JObj [(''task_id'', JStr task_id)])]\<rparr>)"
proof (cases "is_connected (nats a)")
  case (Pair b n1)
  show ?thesis
  proof (cases b)
    case True
    from publish_effect [of "connect_fault env" "publish_fault env" "''tasks''"
        "JObj [(''task_id'', JStr task_id)]" n1 "trace a"]
    obtain n' where
      "publish (connect_fault env) (publish_fault env) ''tasks''
         (JObj [(''task_id'', JStr task_id)]) n1 (trace a) = (Inr (), n', trace a) \<or>
       publish (connect_fault env) (publish_fault env) ''tasks''
         (JObj [(''task_id'', JStr task_id)]) n1 (trace a)
         = (Inr (), n', trace a @ [NcPublish ''tasks'' (JObj [(''task_id'', JStr task_id)])])"
      by blast
    with Pair True show ?thesis
      by (auto simp: submit_notify_def intro: exI [of _ n'])
  next
    case False
    with Pair show ?thesis by (auto simp: submit_notify_def)
  qed
qed

text \<open>A run with no other run in between is \<open>process_task\<close>.\<close>

lemma run_alone_process_task:
  "run_alone env k w = (Finished, snd (process_task env k w))"
  by (auto simp: run_alone_def eval_nat_numeral run_defs discard_def Let_def
      split: option.splits sum.splits prod.splits)

text \<open>A step touches the record of its own task id only.\<close>

lemma step_other:
  "step env k st w = (st1, w1) \<Longrightarrow> k' \<noteq> k \<Longrightarrow> store w1 k' = store w k'"
  by (cases st)
    (auto simp: redis_get_task_def redis_set_task_def discard_def
      split: option.splits sum.splits)

text \<open>A step deletes no record and writes no status PENDING.\<close>

lemma step_not_pending:
  assumes "step env k st w = (st1, w1)"
    and "writes_no_pending st"
    and "store w k' = Some t" and "status t \<noteq> PENDING"
  shows "writes_no_pending st1 \<and> (\<exists>t1. store w1 k' = Some t1 \<and> status t1 \<noteq> PENDING)"
  using assms
  by (cases st)
    (auto simp: redis_get_task_def redis_set_task_def discard_def
      split: option.splits sum.splits)

text \<open>What a step does to the services: nothing, or one write of the record the stage
  holds, under the run's task id.\<close>

lemma step_effect:
  "step env k st w = (st1, w1) \<Longrightarrow>
   (store w1 = store w \<and> trace w1 = trace w) \<or>
   (\<exists>td. pending_write st = Some td \<and> store w1 = (store w)(k \<mapsto> td) \<and>
         trace w1 = trace w @ [RedisSet k td])"
  by (cases st)
    (auto simp: redis_get_task_def redis_set_task_def discard_def
      split: option.splits sum.splits)

lemma stage_inv_write:
  "stage_inv r st \<Longrightarrow> pending_write st = Some td \<Longrightarrow> result_error_ok td"
  by (cases st) (auto simp: result_error_ok_def)

lemma step_stage_inv_own:
  "step env k st w = (st1, w1) \<Longrightarrow> stage_inv (store w k) st \<Longrightarrow> stage_inv (store w1 k) st1"
  by (cases st)
    (auto simp: redis_get_task_def redis_set_task_def discard_def clean_def
      split: option.splits sum.splits)

text \<open>A step of a run that is alone on its task id keeps the invariant of the data model,
  in the store and on what it writes, and its own stage invariant.\<close>

lemma step_stage_inv:
  assumes s: "step env k st w = (st1, w1)"
    and inv: "stage_inv (store w k) st"
    and st: "\<forall>k' t. store w k' = Some t \<longrightarrow> result_error_ok t"
    and tr: "\<forall>t \<in> set (persisted (trace w)). result_error_ok t"
  shows "stage_inv (store w1 k) st1 \<and>
         (\<forall>k' t. store w1 k' = Some t \<longrightarrow> result_error_ok t) \<and>
         (\<forall>t \<in> set (persisted (trace w1)). result_error_ok t)"
proof -
  have own: "stage_inv (store w1 k) st1"
    using step_stage_inv_own [OF s inv] .
  from step_effect [OF s] show ?thesis
  proof
    assume "store w1 = store w \<and> trace w1 = trace w"
    with own st tr show ?thesis by simp
  next
    assume "\<exists>td. pending_write st = Some td \<and> store w1 = (store w)(k \<mapsto> td) \<and>
         trace w1 = trace w @ [RedisSet k td]"
    then obtain td where td: "pending_write st = Some td"
      and w1: "store w1 = (store w)(k \<mapsto> td)" "trace w1 = trace w @ [RedisSet k td]"
      by blast
    have ok: "result_error_ok td" using stage_inv_write [OF inv td] .
    have "\<forall>k' t. store w1 k' = Some t \<longrightarrow> result_error_ok t"
      using st ok w1(1) by simp
    moreover have "\<forall>t \<in> set (persisted (trace w1)). result_error_ok t"
      using tr ok w1(2) by (simp add: persisted_append)
    ultimately show ?thesis using own by simp
  qed
qed

text \<open>Resuming a run changes its stage only.\<close>

lemma task_ids_update:
  "i < length p \<Longrightarrow> p ! i = (env, k, st) \<Longrightarrow>
   map (\<lambda>r. fst (snd r)) (p[i := (env, k, st1)]) = map (\<lambda>r. fst (snd r)) p"
  by (simp add: map_update list_update_same_conv)

lemma interleave_other:
  "k \<notin> set (map (\<lambda>r. fst (snd r)) p) \<Longrightarrow> store (snd (interleave sched p w)) k = store w k"
proof (induction sched arbitrary: p w)
  case Nil
  then show ?case by simp
next
  case (Cons i sched)
  show ?case
  proof (cases "i < length p")
    case False
    with Cons show ?thesis by simp
  next
    case True
    obtain env k' st where r: "p ! i = (env, k', st)" by (cases "p ! i")
    obtain st1 w1 where s: "step env k' st w = (st1, w1)" by (cases "step env k' st w")
    from True r have "k' \<in> set (map (\<lambda>r. fst (snd r)) p)"
      by (metis fst_conv snd_conv nth_map nth_mem length_map)
    with Cons.prems have "k' \<noteq> k" by auto
    with s have same: "store w1 k = store w k" by (simp add: step_other)
    have "k \<notin> set (map (\<lambda>r. fst (snd r)) (p[i := (env, k', st1)]))"
      using Cons.prems unfolding task_ids_update [OF True r] .
    from Cons.IH [OF this, of w1] True r s same show ?thesis by simp
  qed
qed

lemma interleave_not_pending:
  assumes "\<forall>r \<in> set p. writes_no_pending (snd (snd r))"
    and "store w k = Some t" and "status t \<noteq> PENDING"
  shows "\<exists>t1. store (snd (interleave sched p w)) k = Some t1 \<and> status t1 \<noteq> PENDING"
  using assms
proof (induction sched arbitrary: p w t)
  case Nil
  then show ?case by simp
next
  case (Cons i sched)
  show ?case
  proof (cases "i < length p")
    case False
    with Cons.IH [OF Cons.prems] show ?thesis by simp
  next
    case True
    obtain env k' st where r: "p ! i = (env, k', st)" by (cases "p ! i")
    obtain st1 w1 where s: "step env k' st w = (st1, w1)" by (cases "step env k' st w")
    from True r Cons.prems(1) have "writes_no_pending st"
      by (metis nth_mem snd_conv)
    from step_not_pending [OF s this Cons.prems(2,3)]
    obtain t1 where st1: "writes_no_pending st1"
      and t1: "store w1 k = Some t1" "status t1 \<noteq> PENDING"
      by blast
    have "\<forall>r \<in> set (p[i := (env, k', st1)]). writes_no_pending (snd (snd r))"
      using Cons.prems(1) st1 set_update_subset_insert [of p i "(env, k', st1)"] by auto
    from Cons.IH [OF this t1] True r s show ?thesis by simp
  qed
qed

lemma interleave_inv:
  assumes "distinct (map (\<lambda>r. fst (snd r)) p)"
    and "\<forall>i < length p. stage_inv (store w (fst (snd (p ! i)))) (snd (snd (p ! i)))"
    and "\<forall>k t. store w k = Some t \<longrightarrow> result_error_ok t"
    and "\<forall>t \<in> set (persisted (trace w)). result_error_ok t"
  shows "(\<forall>k t. store (snd (interleave sched p w)) k = Some t \<longrightarrow> result_error_ok t) \<and>
         (\<forall>t \<in> set (persisted (trace (snd (interleave sched p w)))). result_error_ok t)"
  using assms
proof (induction sched arbitrary: p w)
  case Nil
  then show ?case by simp
next
  case (Cons i sched)
  show ?case
  proof (cases "i < length p")
    case False
    with Cons.IH [OF Cons.prems] show ?thesis by simp
  next
    case True
    obtain env k st where r: "p ! i = (env, k, st)" by (cases "p ! i")
    obtain st1 w1 where s: "step env k st w = (st1, w1)" by (cases "step env k st w")
    let ?p1 = "p[i := (env, k, st1)]"
    from Cons.prems(2) True r have "stage_inv (store w k) st" by fastforce
    from step_stage_inv [OF s this Cons.prems(3,4)]
    have own: "stage_inv (store w1 k) st1"
      and st: "\<forall>k' t. store w1 k' = Some t \<longrightarrow> result_error_ok t"
      and tr: "\<forall>t \<in> set (persisted (trace w1)). result_error_ok t"
      by blast+
    have d: "distinct (map (\<lambda>r. fst (snd r)) ?p1)"
      using Cons.prems(1) unfolding task_ids_update [OF True r] .
    have "\<forall>j < length ?p1. stage_inv (store w1 (fst (snd (?p1 ! j)))) (snd (snd (?p1 ! j)))"
    proof (intro allI impI)
      fix j assume j: "j < length ?p1"
      show "stage_inv (store w1 (fst (snd (?p1 ! j)))) (snd (snd (?p1 ! j)))"
      proof (cases "j = i")
        case True
        with j own show ?thesis by simp
      next
        case False
        from j have jp: "j < length p" by simp
        have "fst (snd (p ! j)) \<noteq> k"
        proof
          assume "fst (snd (p ! j)) = k"
          with r have same: "map (\<lambda>r. fst (snd r)) p ! j = map (\<lambda>r. fst (snd r)) p ! i"
            using jp True by simp
          have "(map (\<lambda>r. fst (snd r)) p ! j = map (\<lambda>r. fst (snd r)) p ! i) = (j = i)"
            using Cons.prems(1) jp True by (intro nth_eq_iff_index_eq) simp_all
          with same False show False by simp
        qed
        with s have "store w1 (fst (snd (p ! j))) = store w (fst (snd (p ! j)))"
          by (simp add: step_other)
        with False jp Cons.prems(2) show ?thesis by simp
      qed
    qed
    from Cons.IH [OF d this st tr] True r s show ?thesis by simp
  qed
qed

text \<open>The pool of runs just created, for the claims.\<close>

lemma created_task_ids: "map (\<lambda>r. fst (snd r)) (created runs) = map snd runs"
  by (induction runs) (auto simp: created_def)

lemma created_stage: "r \<in> set (created runs) \<Longrightarrow> snd (snd r) = Created"
  by (auto simp: created_def)

lemma created_nth:
  "i < length runs \<Longrightarrow> created runs ! i = (fst (runs ! i), snd (runs ! i), Created)"
  by (simp add: created_def split: prod.splits)

lemma length_created: "length (created runs) = length runs"
  by (simp add: created_def)

text \<open>
  Runs one after the other are one of the schedules: each run is resumed seven times
  before the next one is.
\<close>

lemma interleave_append:
  "interleave (s1 @ s2) p w = (case interleave s1 p w of (p1, w1) \<Rightarrow> interleave s2 p1 w1)"
  by (induction s1 arbitrary: p w) (auto split: prod.splits)

lemma interleave_later_runs:
  "interleave (map Suc sched) (r # p) w = (case interleave sched p w of (p1, w1) \<Rightarrow> (r # p1, w1))"
  by (induction sched arbitrary: p w) (auto split: prod.splits)

lemma interleave_first_run:
  "interleave (replicate n 0) ((env, k, st) # p) w =
     (case ((\<lambda>(st, w). step env k st w) ^^ n) (st, w) of (st1, w1) \<Rightarrow> ((env, k, st1) # p, w1))"
proof (induction n arbitrary: st w)
  case 0
  show ?case by simp
next
  case (Suc n)
  obtain st1 w1 where s: "step env k st w = (st1, w1)" by (cases "step env k st w")
  with Suc [of st1 w1] show ?case
    by (simp add: funpow_swap1)
qed

lemma process_all_interleave:
  "interleave (one_by_one (length runs)) (created runs) w =
     (map (\<lambda>(env, k). (env, k, Finished)) runs, process_all runs w)"
proof (induction runs arbitrary: w)
  case Nil
  show ?case by (simp add: created_def)
next
  case (Cons r runs)
  obtain env k where r: "r = (env, k)" by (cases r)
  have c: "created ((env, k) # runs) = (env, k, Created) # created runs"
    by (simp add: created_def)
  have "interleave (replicate 7 0) ((env, k, Created) # created runs) w =
          ((env, k, Finished) # created runs, snd (process_task env k w))"
    using run_alone_process_task [of env k w]
    by (simp add: interleave_first_run run_alone_def)
  with Cons [of "snd (process_task env k w)"] show ?case
    by (simp add: r c interleave_append interleave_later_runs)
qed

text \<open>Every stage a step leads to holds a record with a status other than PENDING, and
  the runs' task ids stay as they are.\<close>

lemma step_writes_no_pending:
  "step env k st w = (st1, w1) \<Longrightarrow> writes_no_pending st \<Longrightarrow> writes_no_pending st1"
  by (cases st)
    (auto simp: redis_get_task_def redis_set_task_def discard_def
      split: option.splits sum.splits)

lemma step_live_inv:
  "step env k st w = (st1, w1) \<Longrightarrow> live_inv (store w k) st \<Longrightarrow> live_inv (store w1 k) st1"
  by (cases st)
    (auto simp: redis_get_task_def redis_set_task_def discard_def is_final_def
      split: option.splits sum.splits)

lemma live_inv_final: "live_inv r st \<Longrightarrow> is_final r \<Longrightarrow> st = Finished"
  by (cases st) auto

lemma interleave_task_ids:
  "map (\<lambda>r. fst (snd r)) (fst (interleave sched p w)) = map (\<lambda>r. fst (snd r)) p"
proof (induction sched arbitrary: p w)
  case Nil
  show ?case by simp
next
  case (Cons i sched)
  show ?case
  proof (cases "i < length p")
    case False
    with Cons show ?thesis by simp
  next
    case True
    obtain env k st where r: "p ! i = (env, k, st)" by (cases "p ! i")
    obtain st1 w1 where s: "step env k st w = (st1, w1)" by (cases "step env k st w")
    from Cons [of "p[i := (env, k, st1)]" w1] True r s show ?thesis
      by (simp add: task_ids_update [OF True r])
  qed
qed

lemma interleave_writes_no_pending:
  "\<forall>r \<in> set p. writes_no_pending (snd (snd r)) \<Longrightarrow>
   \<forall>r \<in> set (fst (interleave sched p w)). writes_no_pending (snd (snd r))"
proof (induction sched arbitrary: p w)
  case Nil
  then show ?case by simp
next
  case (Cons i sched)
  show ?case
  proof (cases "i < length p")
    case False
    with Cons.IH [OF Cons.prems] show ?thesis by simp
  next
    case True
    obtain env k st where r: "p ! i = (env, k, st)" by (cases "p ! i")
    obtain st1 w1 where s: "step env k st w = (st1, w1)" by (cases "step env k st w")
    from True r Cons.prems have "writes_no_pending st"
      by (metis nth_mem snd_conv)
    with s have "writes_no_pending st1" by (rule step_writes_no_pending)
    then have "\<forall>r \<in> set (p[i := (env, k, st1)]). writes_no_pending (snd (snd r))"
      using Cons.prems set_update_subset_insert [of p i "(env, k, st1)"] by auto
    from Cons.IH [OF this, of w1] True r s show ?thesis by simp
  qed
qed

text \<open>Runs that are done write nothing.\<close>

lemma interleave_finished:
  "\<forall>r \<in> set p. fst (snd r) = k \<longrightarrow> snd (snd r) = Finished \<Longrightarrow>
   store (snd (interleave sched p w)) k = store w k"
proof (induction sched arbitrary: p w)
  case Nil
  then show ?case by simp
next
  case (Cons i sched)
  show ?case
  proof (cases "i < length p")
    case False
    with Cons.IH [OF Cons.prems] show ?thesis by simp
  next
    case True
    obtain env k' st where r: "p ! i = (env, k', st)" by (cases "p ! i")
    obtain st1 w1 where s: "step env k' st w = (st1, w1)" by (cases "step env k' st w")
    from True r have mem: "(env, k', st) \<in> set p" by (metis nth_mem)
    have same: "store w1 k = store w k" and fin: "k' = k \<longrightarrow> st1 = Finished"
    proof -
      show "store w1 k = store w k"
      proof (cases "k' = k")
        case True
        with mem Cons.prems have "st = Finished" by auto
        with s show ?thesis by simp
      next
        case False
        with s show ?thesis by (simp add: step_other)
      qed
      show "k' = k \<longrightarrow> st1 = Finished"
      proof
        assume "k' = k"
        with mem Cons.prems have "st = Finished" by auto
        with s show "st1 = Finished" by simp
      qed
    qed
    have "\<forall>r \<in> set (p[i := (env, k', st1)]). fst (snd r) = k \<longrightarrow> snd (snd r) = Finished"
      using Cons.prems fin set_update_subset_insert [of p i "(env, k', st1)"] by auto
    from Cons.IH [OF this, of w1] True r s same show ?thesis by simp
  qed
qed

text \<open>When no task id has two runs, every run that is not done has a record that is not
  final, at every point of every schedule.\<close>

lemma interleave_live_inv:
  assumes "distinct (map (\<lambda>r. fst (snd r)) p)"
    and "\<forall>i < length p. live_inv (store w (fst (snd (p ! i)))) (snd (snd (p ! i)))"
    and "interleave sched p w = (p1, w1)"
  shows "\<forall>i < length p1. live_inv (store w1 (fst (snd (p1 ! i)))) (snd (snd (p1 ! i)))"
  using assms
proof (induction sched arbitrary: p w)
  case Nil
  then show ?case by simp
next
  case (Cons i sched)
  show ?case
  proof (cases "i < length p")
    case False
    with Cons.prems(3) have "interleave sched p w = (p1, w1)" by simp
    from Cons.IH [OF Cons.prems(1,2) this] show ?thesis .
  next
    case True
    obtain env k st where r: "p ! i = (env, k, st)" by (cases "p ! i")
    obtain st1 w2 where s: "step env k st w = (st1, w2)" by (cases "step env k st w")
    let ?p2 = "p[i := (env, k, st1)]"
    from Cons.prems(2) True r have "live_inv (store w k) st" by fastforce
    from step_live_inv [OF s this] have own: "live_inv (store w2 k) st1" .
    have d: "distinct (map (\<lambda>r. fst (snd r)) ?p2)"
      using Cons.prems(1) unfolding task_ids_update [OF True r] .
    have inv: "\<forall>j < length ?p2. live_inv (store w2 (fst (snd (?p2 ! j)))) (snd (snd (?p2 ! j)))"
    proof (intro allI impI)
      fix j assume j: "j < length ?p2"
      show "live_inv (store w2 (fst (snd (?p2 ! j)))) (snd (snd (?p2 ! j)))"
      proof (cases "j = i")
        case True
        with j own show ?thesis by simp
      next
        case False
        from j have jp: "j < length p" by simp
        have "fst (snd (p ! j)) \<noteq> k"
        proof
          assume "fst (snd (p ! j)) = k"
          with r have same: "map (\<lambda>r. fst (snd r)) p ! j = map (\<lambda>r. fst (snd r)) p ! i"
            using jp True by simp
          have "(map (\<lambda>r. fst (snd r)) p ! j = map (\<lambda>r. fst (snd r)) p ! i) = (j = i)"
            using Cons.prems(1) jp True by (intro nth_eq_iff_index_eq) simp_all
          with same False show False by simp
        qed
        with s have "store w2 (fst (snd (p ! j))) = store w (fst (snd (p ! j)))"
          by (simp add: step_other)
        with False jp Cons.prems(2) show ?thesis by simp
      qed
    qed
    from Cons.prems(3) True r s have "interleave sched ?p2 w2 = (p1, w1)" by simp
    from Cons.IH [OF d inv this] show ?thesis .
  qed
qed

section \<open>The claims\<close>

text \<open>
  C1. The claim: \<open>submit\<close> refuses \<open>shots \<le> 0\<close> with InvalidRequest and writes nothing.
  Here \<open>submit_task\<close> takes a \<open>QuantumCircuitRequest\<close>, whose \<open>shots\<close> has no
  constraint: a request with \<open>shots = 0\<close> is answered with the task id and "pending", and
  its task is in the store, with \<open>shots = 0\<close>. The model \<open>TaskRequest\<close> of
  common/models.py, which \<open>submit_task\<close> does not use, refuses the same value.
\<close>

theorem submit_task_stores_zero_shots:
  "fst (submit_task submit_ok_env \<lparr>quantum_circuit = bell_qasm, request_shots = 0\<rparr> api0)
     = Inr (JObj [(''task_id'', JStr ''t1''), (''status'', JStr ''pending'')])
   \<and> store (snd (submit_task submit_ok_env
                   \<lparr>quantum_circuit = bell_qasm, request_shots = 0\<rparr> api0)) ''t1''
     = Some (pending_task\<lparr>shots := 0\<rparr>)
   \<and> TaskRequest bell_qasm (Some 0) = Inl (ValidationError ''Input should be greater than 0'')"
  by (simp add: submit_defs example_defs TaskRequest_def Let_def)

text \<open>
  C2, as stated: once a task is COMPLETED or FAILED, nothing sets its status back, a
  duplicate notification included. It fails: \<open>process_task\<close> does not look at the status
  it loads. Run for a COMPLETED task, it writes the record as PROCESSING and then as
  COMPLETED again; and when Redis is lost after the first write, the record stays
  PROCESSING.
\<close>

theorem duplicate_run_sets_processing:
  "map_option status (store (worker_with completed_task) ''t1'') = Some COMPLETED
   \<and> map status (persisted (trace (process_all [(ok_env, ''t1'')] (worker_with completed_task))))
     = [PROCESSING, COMPLETED]
   \<and> map_option status
        (store (process_all [(redis_lost_env, ''t1'')] (worker_with completed_task)) ''t1'')
     = Some PROCESSING"
  by (simp add: run_defs example_defs Let_def)

text \<open>
  C2, amended. When no task id has more than one run and the records of the ids to be
  processed are not COMPLETED or FAILED at the start: in every order in which the event
  loop resumes the runs, a record that is COMPLETED or FAILED at some point is the same
  record at every later point. With any runs, duplicates included: such a record is never
  deleted and never gets the status PENDING, and it is unchanged when no run is for its
  task id. A further run for its own id (a duplicate notification) whose first two Redis
  calls succeed writes it back with the status PROCESSING.
\<close>

theorem terminal_status_after_runs:
  assumes "store (snd (interleave s1 (created runs) w)) k = Some t"
    and "status t = COMPLETED \<or> status t = FAILED"
  shows "(distinct (map snd runs) \<and> (\<forall>k' \<in> snd ` set runs. \<not> is_final (store w k')) \<longrightarrow>
            store (snd (interleave (s1 @ s2) (created runs) w)) k = Some t) \<and>
         (\<exists>t'. store (snd (interleave (s1 @ s2) (created runs) w)) k = Some t' \<and>
               status t' \<noteq> PENDING \<and> (k \<notin> snd ` set runs \<longrightarrow> t' = t)) \<and>
         (load_fault env = None \<and> set_processing_fault env = None \<longrightarrow>
            (\<exists>evs. trace (snd (process_task env k (snd (interleave s1 (created runs) w))))
                     = trace (snd (interleave s1 (created runs) w))
                       @ RedisSet k (t\<lparr>status := PROCESSING\<rparr>) # evs))"
proof -
  obtain p1 w1 where i1: "interleave s1 (created runs) w = (p1, w1)"
    by (cases "interleave s1 (created runs) w")
  with assms(1) have rec: "store w1 k = Some t" by simp
  have app: "snd (interleave (s1 @ s2) (created runs) w) = snd (interleave s2 p1 w1)"
    by (simp add: interleave_append i1)
  have ids: "map (\<lambda>r. fst (snd r)) p1 = map snd runs"
    using interleave_task_ids [of s1 "created runs" w] i1 by (simp add: created_task_ids)
  from assms(2) have np: "status t \<noteq> PENDING" by auto
  have stays: "store (snd (interleave s2 p1 w1)) k = Some t"
    if d: "distinct (map snd runs)"
      and live: "\<forall>k' \<in> snd ` set runs. \<not> is_final (store w k')"
  proof -
    let ?p = "created runs"
    have d0: "distinct (map (\<lambda>r. fst (snd r)) ?p)"
      using d by (simp add: created_task_ids)
    have "\<forall>i < length ?p. live_inv (store w (fst (snd (?p ! i)))) (snd (snd (?p ! i)))"
    proof (intro allI impI)
      fix i assume "i < length ?p"
      then have i: "i < length runs" by (simp add: length_created)
      then have "snd (runs ! i) \<in> snd ` set runs" by simp
      with live have "\<not> is_final (store w (snd (runs ! i)))" by blast
      with i show "live_inv (store w (fst (snd (?p ! i)))) (snd (snd (?p ! i)))"
        by (simp add: created_nth)
    qed
    from interleave_live_inv [OF d0 this i1]
    have inv: "\<forall>i < length p1. live_inv (store w1 (fst (snd (p1 ! i)))) (snd (snd (p1 ! i)))" .
    have fin: "is_final (store w1 k)"
      using rec assms(2) by (simp add: is_final_def)
    have "\<forall>r \<in> set p1. fst (snd r) = k \<longrightarrow> snd (snd r) = Finished"
    proof (intro ballI impI)
      fix r assume "r \<in> set p1" and rk: "fst (snd r) = k"
      then obtain i where "i < length p1" and "p1 ! i = r"
        by (auto simp: in_set_conv_nth)
      with inv rk have "live_inv (store w1 k) (snd (snd r))" by auto
      from live_inv_final [OF this fin] show "snd (snd r) = Finished" .
    qed
    from interleave_finished [OF this, of s2 w1] rec show ?thesis by simp
  qed
  have "\<forall>r \<in> set (created runs). writes_no_pending (snd (snd r))"
    by (simp add: created_stage)
  from interleave_writes_no_pending [OF this, of s1 w] i1
  have "\<forall>r \<in> set p1. writes_no_pending (snd (snd r))" by simp
  from interleave_not_pending [OF this rec np]
  obtain t' where t': "store (snd (interleave s2 p1 w1)) k = Some t'" "status t' \<noteq> PENDING"
    by blast
  have "k \<notin> snd ` set runs \<longrightarrow> t' = t"
    using interleave_other [of k p1 s2 w1] t'(1) rec ids by auto
  with t' have general: "\<exists>t'. store (snd (interleave s2 p1 w1)) k = Some t' \<and>
      status t' \<noteq> PENDING \<and> (k \<notin> snd ` set runs \<longrightarrow> t' = t)"
    by blast
  have again: "\<exists>evs. trace (snd (process_task env k w1))
                = trace w1 @ RedisSet k (t\<lparr>status := PROCESSING\<rparr>) # evs"
    if "load_fault env = None" and "set_processing_fault env = None"
    using that rec
    by (auto simp: run_defs Let_def split: option.splits sum.splits prod.splits)
  from stays general again show ?thesis
    by (simp add: app i1)
qed

theorem terminal_status_after_runs_witness:
  "store (snd (interleave [0, 1, 0, 0, 1, 0, 0, 0]
                 (created [(engine_fails_env, ''t1''), (ok_env, ''t2'')])
                 (worker_with pending_task))) ''t1'' = Some failed_task
   \<and> status failed_task = FAILED
   \<and> distinct (map snd [(engine_fails_env, ''t1''), (ok_env, ''t2'')])
   \<and> \<not> is_final (store (worker_with pending_task) ''t1'')
   \<and> \<not> is_final (store (worker_with pending_task) ''t2'')
   \<and> store (snd (interleave ([0, 1, 0, 0, 1, 0, 0, 0] @ [0, 1, 1, 0])
                   (created [(engine_fails_env, ''t1''), (ok_env, ''t2'')])
                   (worker_with pending_task))) ''t1'' = Some failed_task
   \<and> load_fault ok_env = None
   \<and> set_processing_fault ok_env = None
   \<and> (\<exists>evs. trace (snd (process_task ok_env ''t1''
                (snd (interleave [0, 1, 0, 0, 1, 0, 0, 0]
                        (created [(engine_fails_env, ''t1''), (ok_env, ''t2'')])
                        (worker_with pending_task)))))
              = trace (snd (interleave [0, 1, 0, 0, 1, 0, 0, 0]
                        (created [(engine_fails_env, ''t1''), (ok_env, ''t2'')])
                        (worker_with pending_task)))
                @ RedisSet ''t1'' (failed_task\<lparr>status := PROCESSING\<rparr>) # evs)
   \<and> store (snd (interleave ([] @ [0, 0, 0]) (created [(ok_env, ''t2'')])
                   (worker_with completed_task))) ''t1''
     = Some completed_task"
proof -
  let ?runs = "[(engine_fails_env, ''t1''), (ok_env, ''t2'')]"
  let ?w = "worker_with pending_task"
  let ?s1 = "[0, 1, 0, 0, 1, 0, 0, 0] :: nat list"
  have h1: "store (snd (interleave ?s1 (created ?runs) ?w)) ''t1'' = Some failed_task"
    by code_simp
  have h2: "status failed_task = FAILED"
    by (simp add: failed_task_def)
  have d: "distinct (map snd ?runs)" by simp
  have l1: "\<not> is_final (store ?w ''t1'')" and l2: "\<not> is_final (store ?w ''t2'')"
    by (simp_all add: worker_with_def pending_task_def is_final_def)
  have live: "\<forall>k' \<in> snd ` set ?runs. \<not> is_final (store ?w k')"
    using l1 l2 by simp
  have e1: "load_fault ok_env = None" and e2: "set_processing_fault ok_env = None"
    by (simp_all add: ok_env_def)
  note th = terminal_status_after_runs [OF h1 disjI2 [OF h2], of "[0, 1, 1, 0]" ok_env]
  from th d live
  have stays: "store (snd (interleave (?s1 @ [0, 1, 1, 0]) (created ?runs) ?w)) ''t1''
      = Some failed_task"
    by blast
  from th e1 e2
  have again: "\<exists>evs. trace (snd (process_task ok_env ''t1''
                  (snd (interleave ?s1 (created ?runs) ?w))))
      = trace (snd (interleave ?s1 (created ?runs) ?w))
        @ RedisSet ''t1'' (failed_task\<lparr>status := PROCESSING\<rparr>) # evs"
    by blast
  have c1: "store (snd (interleave [] (created [(ok_env, ''t2'')])
                (worker_with completed_task))) ''t1'' = Some completed_task"
    by (simp add: worker_with_def)
  have c2: "status completed_task = COMPLETED \<or> status completed_task = FAILED"
    by (simp add: completed_task_def)
  from terminal_status_after_runs [OF c1 c2, of "[0, 0, 0]" ok_env]
  have other: "store (snd (interleave ([] @ [0, 0, 0]) (created [(ok_env, ''t2'')])
                   (worker_with completed_task))) ''t1'' = Some completed_task"
    by auto
  from h1 h2 d l1 l2 stays e1 e2 again other show ?thesis by blast
qed

text \<open>
  C3. The claim: with capacity N, at most N tasks are processed at once, malformed
  notifications included, and the semaphore never has more than N free slots. Here the
  handler of \<open>handle_task_message\<close> calls \<open>sem.release()\<close> for a message it could not
  parse, for which nothing was acquired. With capacity 1: two notifications for valid tasks
  suspend the second one; after one message that is not JSON text, both are admitted and
  two tasks are in flight.
\<close>

theorem malformed_message_admits_two:
  "handle_all loads_option [notification ''a'', notification ''b''] \<lparr>sem = 1, in_flight = []\<rparr>
     = None
   \<and> handle_task_message loads_option None \<lparr>sem = 1, in_flight = []\<rparr>
     = Some \<lparr>sem = 2, in_flight = []\<rparr>
   \<and> handle_all loads_option [None, notification ''a'', notification ''b'']
        \<lparr>sem = 1, in_flight = []\<rparr>
     = Some \<lparr>sem = 0, in_flight = [JStr ''a'', JStr ''b'']\<rparr>"
  by (simp add: handle_task_message_def release_def acquire_def example_defs)

text \<open>
  C4. The claim: \<open>shutdown\<close> waits until the active tasks are done, 10 seconds at most,
  and closes the connections only then. Here \<open>shutdown\<close> awaits one \<open>sleep(0.1)\<close> per
  active task, all at once: with a task that ends 15 s after the signal, and with one that
  ends after 5 s, it goes on to disconnect after 100 ms, the timeout not reached and the
  task still active.
\<close>

theorem shutdown_closes_after_100ms:
  "shutdown [(''t1'', 15000)]
     = \<lparr>closed_at = 100, timeout_reached = False, still_active = [''t1'']\<rparr>
   \<and> shutdown [(''t1'', 5000)]
     = \<lparr>closed_at = 100, timeout_reached = False, still_active = [''t1'']\<rparr>
   \<and> shutdown_timeout = 10000"
  by (simp add: shutdown_def gather_def wait_for_def shutdown_timeout_def)

text \<open>
  C5, as stated: on every record ever persisted, \<open>result\<close> is present exactly when the
  status is COMPLETED and \<open>error\<close> exactly when it is FAILED, never both, under any
  interleaving of runs for the same task id. It fails with two runs for one id, one after
  the other: the first fails in the simulator and writes FAILED with an error; the second
  loads that record and writes it as PROCESSING, still with the error, and then as
  COMPLETED with a result and the error.
\<close>

theorem second_run_keeps_error:
  "map (\<lambda>t. (status t, result t \<noteq> None, error t \<noteq> None))
     (persisted (trace (process_all [(engine_fails_env, ''t1''), (ok_env, ''t1'')]
                          (worker_with pending_task))))
     = [(PROCESSING, False, False), (FAILED, False, True),
        (PROCESSING, False, True), (COMPLETED, True, True)]
   \<and> \<not> result_error_ok
          (the (store (process_all [(engine_fails_env, ''t1''), (ok_env, ''t1'')]
                         (worker_with pending_task)) ''t1''))"
  by (simp add: run_defs example_defs Let_def result_error_ok_def)

text \<open>
  C5, amended: when no task id has more than one run, the records of the ids to be
  processed have neither result nor error (as \<open>submit_task\<close> writes them), and every
  stored or written record satisfies the invariant, then in every order in which the event
  loop resumes the runs, every record in the store and every record written satisfies it:
  \<open>result\<close> present exactly when COMPLETED, \<open>error\<close> exactly when FAILED, never both.
\<close>

theorem single_runs_keep_result_error:
  assumes "distinct (map snd runs)"
    and "\<forall>k \<in> snd ` set runs. clean (store w k)"
    and "\<forall>k t. store w k = Some t \<longrightarrow> result_error_ok t"
    and "\<forall>t \<in> set (persisted (trace w)). result_error_ok t"
  shows "(\<forall>k t. store (snd (interleave sched (created runs) w)) k = Some t \<longrightarrow>
            result_error_ok t) \<and>
         (\<forall>t \<in> set (persisted (trace (snd (interleave sched (created runs) w)))).
            result_error_ok t)"
proof -
  let ?p = "created runs"
  have d: "distinct (map (\<lambda>r. fst (snd r)) ?p)"
    using assms(1) by (simp add: created_task_ids)
  have "\<forall>i < length ?p. stage_inv (store w (fst (snd (?p ! i)))) (snd (snd (?p ! i)))"
  proof (intro allI impI)
    fix i assume "i < length ?p"
    then have i: "i < length runs" by (simp add: length_created)
    then have "snd (runs ! i) \<in> snd ` set runs" by simp
    with assms(2) have "clean (store w (snd (runs ! i)))" by blast
    with i show "stage_inv (store w (fst (snd (?p ! i)))) (snd (snd (?p ! i)))"
      by (simp add: created_nth)
  qed
  from interleave_inv [OF d this assms(3,4)] show ?thesis .
qed

theorem single_runs_keep_result_error_witness:
  "distinct (map snd [(engine_fails_env, ''t1''), (ok_env, ''t2'')])
   \<and> clean (store (worker_with pending_task) ''t1'')
   \<and> clean (store (worker_with pending_task) ''t2'')
   \<and> result_error_ok pending_task
   \<and> map status
        (persisted (trace (snd (interleave [0, 1, 0, 0, 1, 0, 0, 0]
                                  (created [(engine_fails_env, ''t1''), (ok_env, ''t2'')])
                                  (worker_with pending_task)))))
     = [PROCESSING, FAILED]
   \<and> list_all result_error_ok
        (persisted (trace (snd (interleave [0, 1, 0, 0, 1, 0, 0, 0]
                                  (created [(engine_fails_env, ''t1''), (ok_env, ''t2'')])
                                  (worker_with pending_task)))))"
proof -
  let ?runs = "[(engine_fails_env, ''t1''), (ok_env, ''t2'')]"
  let ?w = "worker_with pending_task"
  have h1: "distinct (map snd ?runs)" by simp
  have c1: "clean (store ?w ''t1'')" and c2: "clean (store ?w ''t2'')"
    by (simp_all add: worker_with_def pending_task_def clean_def)
  have ok: "result_error_ok pending_task"
    by (simp add: pending_task_def result_error_ok_def)
  have h2: "\<forall>k \<in> snd ` set ?runs. clean (store ?w k)"
    using c1 c2 by simp
  have h3: "\<forall>k t. store ?w k = Some t \<longrightarrow> result_error_ok t"
    using ok by (simp add: worker_with_def)
  have h4: "\<forall>t \<in> set (persisted (trace ?w)). result_error_ok t"
    by (simp add: worker_with_def)
  have written: "map status
        (persisted (trace (snd (interleave [0, 1, 0, 0, 1, 0, 0, 0] (created ?runs) ?w))))
     = [PROCESSING, FAILED]"
    by code_simp
  from single_runs_keep_result_error [OF h1 h2 h3 h4, of "[0, 1, 0, 0, 1, 0, 0, 0]"]
  have "list_all result_error_ok
        (persisted (trace (snd (interleave [0, 1, 0, 0, 1, 0, 0, 0] (created ?runs) ?w))))"
    by (simp add: list_all_iff)
  with h1 c1 c2 ok written show ?thesis by blast
qed

text \<open>
  C6. \<open>submit_task\<close> writes the PENDING record before it calls the bus: what it adds to
  the trace starts with the write to Redis, followed by at most one publish. When the
  write raises, the call fails with HTTPException 500 and leaves the store, the trace (so
  nothing is published) and the NATS client as they were.
\<close>

theorem submit_task_persists_first:
  "(\<forall>e. set_fault env = Some e \<longrightarrow>
      (\<exists>detail. fst (submit_task env request a) = Inl (HTTPException 500 detail)) \<and>
      snd (submit_task env request a) = a)
   \<and> (set_fault env = None \<longrightarrow>
      status (new_task env request) = PENDING \<and>
      store (snd (submit_task env request a)) (uuid4 env) = Some (new_task env request) \<and>
      (\<exists>evs. trace (snd (submit_task env request a))
               = trace a @ RedisSet (uuid4 env) (new_task env request) # evs
             \<and> (evs = [] \<or>
                evs = [NcPublish ''tasks'' (JObj [(''task_id'', JStr (uuid4 env))])])))"
proof -
  let ?t = "new_task env request"
  let ?p = "NcPublish ''tasks'' (JObj [(''task_id'', JStr (uuid4 env))])"
  have failing: "(\<exists>detail. fst (submit_task env request a) = Inl (HTTPException 500 detail)) \<and>
      snd (submit_task env request a) = a" if "set_fault env = Some e" for e
    using that by (simp add: submit_task_def submit_store_def redis_set_task_def Let_def)
  have writing: "status ?t = PENDING \<and>
      store (snd (submit_task env request a)) (uuid4 env) = Some ?t \<and>
      (\<exists>evs. trace (snd (submit_task env request a)) = trace a @ RedisSet (uuid4 env) ?t # evs
             \<and> (evs = [] \<or> evs = [?p]))" if ok: "set_fault env = None"
  proof -
    let ?a1 = "a\<lparr>store := (store a)(uuid4 env \<mapsto> ?t),
                  trace := trace a @ [RedisSet (uuid4 env) ?t]\<rparr>"
    have st: "submit_store env ?t a = Inr ?a1"
      using ok by (simp add: submit_store_def redis_set_task_def new_task_def)
    from submit_notify_effect [of env "uuid4 env" ?a1]
    obtain n' where "submit_notify env (uuid4 env) ?a1 = (Inr (), ?a1\<lparr>nats := n'\<rparr>) \<or>
        submit_notify env (uuid4 env) ?a1 = (Inr (), ?a1\<lparr>nats := n', trace := trace ?a1 @ [?p]\<rparr>)"
      by blast
    then show ?thesis
      using st by (auto simp: submit_task_def Let_def new_task_def)
  qed
  from failing writing show ?thesis by blast
qed

theorem submit_task_persists_first_witness:
  "set_fault (submit_ok_env\<lparr>set_fault := Some (ConnectionError ''refused'')\<rparr>)
     = Some (ConnectionError ''refused'')
   \<and> submit_task (submit_ok_env\<lparr>set_fault := Some (ConnectionError ''refused'')\<rparr>)
        \<lparr>quantum_circuit = bell_qasm, request_shots = 100\<rparr> api0
     = (Inl (HTTPException 500 ''Error creating task: 500: Redis error: refused''), api0)
   \<and> set_fault submit_ok_env = None
   \<and> trace (snd (submit_task submit_ok_env
                   \<lparr>quantum_circuit = bell_qasm, request_shots = 100\<rparr> api0))
     = [RedisSet ''t1'' pending_task, NcPublish ''tasks'' (JObj [(''task_id'', JStr ''t1'')])]"
  using submit_task_persists_first [of "submit_ok_env\<lparr>set_fault := Some (ConnectionError ''refused'')\<rparr>"
      "\<lparr>quantum_circuit = bell_qasm, request_shots = 100\<rparr>" api0]
    submit_task_persists_first [of submit_ok_env
      "\<lparr>quantum_circuit = bell_qasm, request_shots = 100\<rparr>" api0]
  by (simp add: submit_defs example_defs Let_def dec.simps)

text \<open>
  C7. Once the record is written, \<open>submit_task\<close> returns the task id and "pending"
  whatever the bus does: for every state of the NATS client and its link, and whether or
  not \<open>nats.connect\<close> and \<open>nc.publish\<close> raise.
\<close>

theorem submit_task_succeeds_without_bus:
  assumes "set_fault env = None"
  shows "fst (submit_task env request a)
         = Inr (JObj [(''task_id'', JStr (uuid4 env)), (''status'', JStr ''pending'')])"
proof -
  let ?t = "new_task env request"
  let ?a1 = "a\<lparr>store := (store a)(uuid4 env \<mapsto> ?t),
                trace := trace a @ [RedisSet (uuid4 env) ?t]\<rparr>"
  have st: "submit_store env ?t a = Inr ?a1"
    using assms by (simp add: submit_store_def redis_set_task_def new_task_def)
  from submit_notify_effect [of env "uuid4 env" ?a1]
  have "fst (submit_notify env (uuid4 env) ?a1) = Inr ()"
    by auto
  then show ?thesis
    using st by (auto simp: submit_task_def Let_def split: prod.splits)
qed

theorem submit_task_succeeds_without_bus_witness:
  "set_fault (submit_ok_env\<lparr>connect_fault := Some (ConnectionError ''no servers''),
                            publish_fault := Some (ConnectionError ''closed'')\<rparr>) = None
   \<and> fst (submit_task (submit_ok_env\<lparr>connect_fault := Some (ConnectionError ''no servers''),
                                     publish_fault := Some (ConnectionError ''closed'')\<rparr>)
            \<lparr>quantum_circuit = bell_qasm, request_shots = 100\<rparr>
            (api0\<lparr>nats := \<lparr>nc = True, link = [True, False, False, True]\<rparr>\<rparr>))
     = Inr (JObj [(''task_id'', JStr ''t1''), (''status'', JStr ''pending'')])
   \<and> fst (submit_task submit_ok_env \<lparr>quantum_circuit = bell_qasm, request_shots = 100\<rparr>
            (api0\<lparr>nats := \<lparr>nc = False, link = []\<rparr>\<rparr>))
     = Inr (JObj [(''task_id'', JStr ''t1''), (''status'', JStr ''pending'')])"
  using submit_task_succeeds_without_bus
      [of "submit_ok_env\<lparr>connect_fault := Some (ConnectionError ''no servers''),
                         publish_fault := Some (ConnectionError ''closed'')\<rparr>"
          "\<lparr>quantum_circuit = bell_qasm, request_shots = 100\<rparr>"
          "api0\<lparr>nats := \<lparr>nc = True, link = [True, False, False, True]\<rparr>\<rparr>"]
    submit_task_succeeds_without_bus
      [of submit_ok_env "\<lparr>quantum_circuit = bell_qasm, request_shots = 100\<rparr>"
          "api0\<lparr>nats := \<lparr>nc = False, link = []\<rparr>\<rparr>"]
  by (simp add: example_defs)

text \<open>
  C8. When Redis answers, \<open>get_task\<close> of the API raises HTTPException 404 "Task not found"
  for a task id that is not in the store, and returns the stored record as it is for one
  that is.
\<close>

theorem get_task_read_through:
  "(store s task_id = None \<longrightarrow>
      get_task None task_id s = Inl (HTTPException 404 ''Task not found''))
   \<and> (\<forall>t. store s task_id = Some t \<longrightarrow> get_task None task_id s = Inr t)"
  by (simp add: get_task_def redis_get_task_def)

theorem get_task_read_through_witness:
  "store (worker_with completed_task) ''t2'' = None
   \<and> get_task None ''t2'' (worker_with completed_task)
     = Inl (HTTPException 404 ''Task not found'')
   \<and> store (worker_with completed_task) ''t1'' = Some completed_task
   \<and> get_task None ''t1'' (worker_with completed_task) = Inr completed_task"
  using get_task_read_through [of "worker_with completed_task" "''t2''"]
    get_task_read_through [of "worker_with completed_task" "''t1''"]
  by (simp add: example_defs)

text \<open>
  C9. For a task id that is not in the store, \<open>process_task\<close> raises nothing and leaves
  the store and the trace as they were (no record made, none written), whether or not the
  Redis calls raise; the id is not in \<open>active_tasks\<close> afterwards. The same holds for
  \<open>handle_task_error\<close>.
\<close>

theorem process_task_unknown_task:
  assumes "store w task_id = None"
  shows "process_task env task_id w
           = (Inr (), w\<lparr>active_tasks := active_tasks w - {task_id}\<rparr>)
         \<and> handle_task_error env task_id error_message w = (Inr (), w)"
  using assms
  by (auto simp: run_defs Let_def split: option.splits sum.splits prod.splits)

theorem process_task_unknown_task_witness:
  "store (worker_with pending_task) ''t2'' = None
   \<and> process_task ok_env ''t2'' (worker_with pending_task) = (Inr (), worker_with pending_task)
   \<and> process_task (ok_env\<lparr>load_fault := Some (ConnectionError ''timeout'')\<rparr>) ''t2''
        (worker_with pending_task) = (Inr (), worker_with pending_task)"
  using process_task_unknown_task [of "worker_with pending_task" "''t2''" ok_env]
    process_task_unknown_task [of "worker_with pending_task" "''t2''"
      "ok_env\<lparr>load_fault := Some (ConnectionError ''timeout'')\<rparr>"]
  by (simp add: example_defs)

text \<open>
  C10. When Qiskit writes the circuit as QASM and reads it back, and \<open>json.loads\<close> gives
  back the payload \<open>json.dumps\<close> was given, \<open>deserialise_circuit_payload\<close> of
  \<open>serialise_circuit_payload(c, s)\<close> returns, with \<open>shots\<close> equal to \<open>s\<close> for a positive
  \<open>s\<close>, and to 1024 for \<open>s\<close> None or 0.
\<close>

theorem payload_round_trip_shots:
  assumes "dumps c = Inr qasm"
    and "loads (JStr qasm) = Inr c'"
    and "json_loads (json_dumps (payload_dict qasm s c)) = Inr (payload_dict qasm s c)"
  shows "\<exists>p. payload_round_trip dumps loads json_dumps json_loads c s = Inr p
           \<and> circuit p = c'
           \<and> (\<forall>n. s = Some n \<and> 0 < n \<longrightarrow> shots_value p = JInt n)
           \<and> (s = None \<or> s = Some 0 \<longrightarrow> shots_value p = JInt 1024)"
  using assms
  by (auto simp: payload_round_trip_def serialise_circuit_payload_def circuit_to_qasm_def
      deserialise_circuit_payload_def qasm_to_circuit_def payload_dict_def)

theorem payload_round_trip_shots_witness:
  "payload_round_trip (\<lambda>c. Inr bell_qasm) (\<lambda>q. Inr bell) id Inr bell (Some 2048)
     = Inr \<lparr>circuit = bell, shots_value = JInt 2048,
            metadata = JObj [(''num_qubits'', JInt 2), (''num_clbits'', JInt 2)]\<rparr>
   \<and> payload_round_trip (\<lambda>c. Inr bell_qasm) (\<lambda>q. Inr bell) id Inr bell None
     = Inr \<lparr>circuit = bell, shots_value = JInt 1024,
            metadata = JObj [(''num_qubits'', JInt 2), (''num_clbits'', JInt 2)]\<rparr>
   \<and> payload_round_trip (\<lambda>c. Inr bell_qasm) (\<lambda>q. Inr bell) id Inr bell (Some 0)
     = Inr \<lparr>circuit = bell, shots_value = JInt 1024,
            metadata = JObj [(''num_qubits'', JInt 2), (''num_clbits'', JInt 2)]\<rparr>"
  using payload_round_trip_shots [of "\<lambda>c. Inr bell_qasm" bell bell_qasm "\<lambda>q. Inr bell" bell
      Inr id "Some 2048"]
    payload_round_trip_shots [of "\<lambda>c. Inr bell_qasm" bell bell_qasm "\<lambda>q. Inr bell" bell
      Inr id None]
    payload_round_trip_shots [of "\<lambda>c. Inr bell_qasm" bell bell_qasm "\<lambda>q. Inr bell" bell
      Inr id "Some 0"]
  by (simp add: payload_round_trip_def serialise_circuit_payload_def circuit_to_qasm_def
      deserialise_circuit_payload_def qasm_to_circuit_def payload_dict_def bell_def)

end
